theory Spec2Isabelle
  imports Main
begin

section \<open>Data model (app/types/tetris.ts)\<close>

datatype TetrominoType = Tet_I | Tet_O | Tet_T | Tet_S | Tet_Z | Tet_J | Tet_L

record Position =
  pos_x :: int
  pos_y :: int

text \<open>
  A \<open>Tetromino\<close> carries its mask as \<open>number[][]\<close>; an entry is occupied when it is
  truthy, that is, nonzero.
\<close>

record Tetromino =
  ttype :: TetrominoType
  shape :: "int list list"
  position :: Position
  color :: string

text \<open>A board cell is \<open>string | null\<close>: \<open>None\<close> is the empty cell.\<close>

type_synonym cell = "string option"
type_synonym Board = "cell list list"

record GameState =
  board :: Board
  currentPiece :: "Tetromino option"
  nextPiece :: "Tetromino option"
  score :: int
  level :: int
  lines :: int
  gameOver :: bool
  paused :: bool

section \<open>The occupied offsets of a mask\<close>

text \<open>
  The components walk a mask with
  \<^verbatim>\<open>for (y = 0; y < shape.length; y++) for (x = 0; x < shape[y].length; x++) if (shape[y][x])\<close>.
  \<open>shapeCells\<close> lists the offsets \<open>(x, y)\<close> that pass the test, in the order of the walk.
\<close>

fun rowCells :: "int \<Rightarrow> int \<Rightarrow> int list \<Rightarrow> (int \<times> int) list" where
  "rowCells yy xx [] = []"
| "rowCells yy xx (v # vs) = (if v \<noteq> 0 then [(xx, yy)] else []) @ rowCells yy (xx + 1) vs"

fun shapeCells :: "int \<Rightarrow> int list list \<Rightarrow> (int \<times> int) list" where
  "shapeCells yy [] = []"
| "shapeCells yy (r # rs) = rowCells yy 0 r @ shapeCells (yy + 1) rs"

section \<open>The grid functions of lib/gameLogic\<close>

text \<open>
  The module lib/gameLogic (createEmptyBoard, isValidMove, mergePieceToBoard, clearLines) is
  imported by the components but is not among the sources. Its functions are modelled from
  section 4.1 of the specification.
\<close>

text \<open>
  Modelled from the spec: the height and the width of a grid (lib/gameLogic is missing). The
  grid is a list of rows of one length; the width is read off the first row.
\<close>

definition boardHeight :: "Board \<Rightarrow> int" where
  "boardHeight b = int (length b)"

definition boardWidth :: "Board \<Rightarrow> int" where
  "boardWidth b = (case b of [] \<Rightarrow> 0 | r # _ \<Rightarrow> int (length r))"

text \<open>
  Reading a cell. An index at or beyond the end of an array reads \<open>undefined\<close> in the
  source language, which is as empty as \<open>null\<close>.
\<close>

definition readCell :: "cell list \<Rightarrow> nat \<Rightarrow> cell" where
  "readCell row i = (if i < length row then row ! i else None)"

definition cellAt :: "Board \<Rightarrow> int \<Rightarrow> int \<Rightarrow> cell" where
  "cellAt b cx cy =
     (if 0 \<le> cy \<and> nat cy < length b \<and> 0 \<le> cx then readCell (b ! nat cy) (nat cx) else None)"

text \<open>
  Modelled from the spec: createEmptyBoard of lib/gameLogic is missing; create empty
  grid(width, height) is a grid of the given dimensions, all cells empty.
\<close>

definition createEmptyBoard :: "nat \<Rightarrow> nat \<Rightarrow> Board" where
  "createEmptyBoard w h = replicate h (replicate w None)"

text \<open>
  Modelled from the spec: the test of one cell in isValidMove (lib/gameLogic is missing); the
  cell lies within [0,width) x [0,height) and the grid cell there is empty.
\<close>

definition cellFree :: "Board \<Rightarrow> int \<Rightarrow> int \<Rightarrow> bool" where
  "cellFree b newX newY =
     (0 \<le> newX \<and> newX < boardWidth b \<and> 0 \<le> newY \<and> newY < boardHeight b
      \<and> cellAt b newX newY = None)"

text \<open>
  Modelled from the spec: the walk of isValidMove over the occupied offsets (lib/gameLogic is
  missing); it stops at the first cell that fails the test.
\<close>

fun allFree :: "Board \<Rightarrow> int \<Rightarrow> int \<Rightarrow> (int \<times> int) list \<Rightarrow> bool" where
  "allFree b ox oy [] = True"
| "allFree b ox oy ((cx, cy) # cs) =
     (if cellFree b (ox + cx) (oy + cy) then allFree b ox oy cs else False)"

text \<open>
  Modelled from the spec: isValidMove of lib/gameLogic is missing; is valid placement(grid,
  piece, dx, dy) is true iff every occupied cell, shifted by (dx, dy) from the piece's
  origin, lies within [0,width) x [0,height) and targets an empty grid cell. The component
  calls it with two arguments, for the offset (0, 0), and with four.
\<close>

definition isValidMove :: "Board \<Rightarrow> Tetromino \<Rightarrow> int \<Rightarrow> int \<Rightarrow> bool" where
  "isValidMove b p dx dy =
     allFree b (pos_x (position p) + dx) (pos_y (position p) + dy) (shapeCells 0 (shape p))"

text \<open>
  Modelled from the spec: the write of one cell in mergePieceToBoard (lib/gameLogic is
  missing). The caller has validated the placement; a cell outside the grid is not written.
\<close>

definition setCell :: "Board \<Rightarrow> int \<Rightarrow> int \<Rightarrow> cell \<Rightarrow> Board" where
  "setCell b cx cy v =
     (if 0 \<le> cy \<and> nat cy < length b \<and> 0 \<le> cx \<and> nat cx < length (b ! nat cy)
      then b[nat cy := (b ! nat cy)[nat cx := v]] else b)"

text \<open>
  Modelled from the spec: the walk of mergePieceToBoard over the occupied offsets
  (lib/gameLogic is missing).
\<close>

fun mergeCells :: "Board \<Rightarrow> Tetromino \<Rightarrow> (int \<times> int) list \<Rightarrow> Board" where
  "mergeCells b p [] = b"
| "mergeCells b p ((cx, cy) # cs) =
     mergeCells (setCell b (pos_x (position p) + cx) (pos_y (position p) + cy) (Some (color p))) p cs"

text \<open>
  Modelled from the spec: mergePieceToBoard of lib/gameLogic is missing; merge piece into
  grid(grid, piece) returns a new grid identical to the input except that the piece's
  occupied cells, at its current origin, hold the piece's colour.
\<close>

definition mergePieceToBoard :: "Board \<Rightarrow> Tetromino \<Rightarrow> Board" where
  "mergePieceToBoard b p = mergeCells b p (shapeCells 0 (shape p))"

text \<open>
  Modelled from the spec: the test of a row in clearLines (lib/gameLogic is missing); a row
  is full iff every cell in it is non-empty.
\<close>

definition isFullRow :: "cell list \<Rightarrow> bool" where
  "isFullRow r = list_all (\<lambda>c. c \<noteq> None) r"

text \<open>
  Modelled from the spec: clearLines of lib/gameLogic is missing; clear full lines(grid)
  returns the new grid and the number of rows removed in the one call. All full rows are
  removed together, the remaining rows keep their order, and as many empty rows as were
  removed are put on top.
\<close>

definition clearLines :: "Board \<Rightarrow> Board \<times> int" where
  "clearLines b =
     (let remaining = filter (\<lambda>r. \<not> isFullRow r) b;
          linesCleared = length b - length remaining
      in (replicate linesCleared (replicate (nat (boardWidth b)) None) @ remaining,
          int linesCleared))"

section \<open>The game component (app/components/TetrisGame.tsx)\<close>

text \<open>
  The scoring and level formulas and the rotation of a piece are imported from
  lib/gameLogic and lib/tetrominos, which are not among the sources, and the specification
  leaves their tables open. The component is therefore modelled over any such functions,
  collected in a record.
\<close>

record Imports =
  calculateScore :: "int \<Rightarrow> int \<Rightarrow> int"
  calculateLevel :: "int \<Rightarrow> int"
  rotateTetromino :: "Tetromino \<Rightarrow> Tetromino"

text \<open>
  The component keeps one \<open>GameState\<close>; every callback reads the state it closed over and
  queues one update. With calls serialised, the state read and the state updated are the
  same, so a callback is a function from the state to the next state.

  \<open>createTetromino()\<close> draws a piece at random. \<open>movePiece\<close> calls it at most twice: for
  the piece to activate when none is queued, and for the new queued piece. The two results
  are the arguments \<open>fresh1\<close> and \<open>fresh2\<close>.
\<close>

definition shifted :: "Tetromino \<Rightarrow> int \<Rightarrow> int \<Rightarrow> Tetromino" where
  "shifted p dx dy =
     p\<lparr>position := \<lparr>pos_x = pos_x (position p) + dx, pos_y = pos_y (position p) + dy\<rparr>\<rparr>"

definition startGame :: "Board \<Rightarrow> Tetromino \<Rightarrow> Tetromino \<Rightarrow> GameState" where
  "startGame emptyBoard newCurrentPiece newNextPiece =
     \<lparr>board = emptyBoard, currentPiece = Some newCurrentPiece, nextPiece = Some newNextPiece,
      score = 0, level = 0, lines = 0, gameOver = False, paused = False\<rparr>"

definition movePiece ::
  "Imports \<Rightarrow> Tetromino \<Rightarrow> Tetromino \<Rightarrow> int \<Rightarrow> int \<Rightarrow> GameState \<Rightarrow> GameState" where
  "movePiece lib fresh1 fresh2 dx dy gs =
     (if gameOver gs \<or> paused gs then gs
      else case currentPiece gs of
        None \<Rightarrow> gs
      | Some cur \<Rightarrow>
          let newPiece = shifted cur dx dy in
          if isValidMove (board gs) newPiece 0 0 then gs\<lparr>currentPiece := Some newPiece\<rparr>
          else if dy > 0 then
            let newBoard = mergePieceToBoard (board gs) cur;
                (clearedBoard, linesCleared) = clearLines newBoard;
                newLines = lines gs + linesCleared;
                newLevel = calculateLevel lib newLines;
                newScore = score gs + calculateScore lib linesCleared (level gs);
                nextP = (case nextPiece gs of Some q \<Rightarrow> q | None \<Rightarrow> fresh1)
            in if \<not> isValidMove clearedBoard nextP 0 0
               then gs\<lparr>board := clearedBoard, gameOver := True\<rparr>
               else \<lparr>board = clearedBoard, currentPiece = Some nextP,
                     nextPiece = Some fresh2, score = newScore, level = newLevel,
                     lines = newLines, gameOver = False, paused = False\<rparr>
          else gs)"

text \<open>The callback \<open>rotate\<close> of the component.\<close>

definition rotate_cb :: "Imports \<Rightarrow> GameState \<Rightarrow> GameState" where
  "rotate_cb lib gs =
     (if gameOver gs \<or> paused gs then gs
      else case currentPiece gs of
        None \<Rightarrow> gs
      | Some cur \<Rightarrow>
          let rotated = rotateTetromino lib cur in
          if isValidMove (board gs) rotated 0 0 then gs\<lparr>currentPiece := Some rotated\<rparr>
          else gs)"

text \<open>
  The loop of \<open>hardDrop\<close>,
  \<^verbatim>\<open>while (isValidMove(board, piece, 0, dropDistance + 1)) dropDistance++\<close>,
  has no bound of its own: not returning is the value \<open>None\<close>.
\<close>

partial_function (option) dropLoop :: "Board \<Rightarrow> Tetromino \<Rightarrow> int \<Rightarrow> int option" where
  "dropLoop b p dropDistance =
     (if isValidMove b p 0 (dropDistance + 1) then dropLoop b p (dropDistance + 1)
      else Some dropDistance)"

definition hardDrop ::
  "Imports \<Rightarrow> Tetromino \<Rightarrow> Tetromino \<Rightarrow> GameState \<Rightarrow> GameState option" where
  "hardDrop lib fresh1 fresh2 gs =
     (if gameOver gs \<or> paused gs then Some gs
      else case currentPiece gs of
        None \<Rightarrow> Some gs
      | Some cur \<Rightarrow>
          (case dropLoop (board gs) cur 0 of
             None \<Rightarrow> None
           | Some dropDistance \<Rightarrow>
               Some (if dropDistance > 0 then movePiece lib fresh1 fresh2 0 dropDistance gs
                     else gs)))"

definition togglePause :: "GameState \<Rightarrow> GameState" where
  "togglePause gs = (if \<not> gameOver gs then gs\<lparr>paused := \<not> paused gs\<rparr> else gs)"

section \<open>The display board (app/components/Board.tsx)\<close>

text \<open>
  \<open>Board\<close> copies the rows of the board it is given and then writes the colour of the
  active piece into the copies. Whether the board it was given is touched depends on which
  arrays the writes reach, so the row arrays live in a store: a reference is an index into
  the list of the row arrays allocated so far, and a board is the list of the references of
  its rows.
\<close>

datatype js_error = TypeError

type_synonym ref = nat
type_synonym store = "cell list list"

definition alloc :: "store \<Rightarrow> cell list \<Rightarrow> ref \<times> store" where
  "alloc h r = (length h, h @ [r])"

text \<open>\<^verbatim>\<open>board.map((row) => [...row])\<close>: a new array for every row, with the row's cells.\<close>

fun copyRows :: "store \<Rightarrow> ref list \<Rightarrow> ref list \<times> store" where
  "copyRows h [] = ([], h)"
| "copyRows h (r # rs) =
     (let (a, h1) = alloc h (h ! r);
          (as, h2) = copyRows h1 rs
      in (a # as, h2))"

text \<open>
  \<^verbatim>\<open>row[i] = v\<close>: inside the array the element is replaced; at or beyond its end the
  array grows up to index \<open>i\<close>, and the elements in between read \<open>undefined\<close>, shown
  like \<open>null\<close>.
\<close>

definition writeCell :: "cell list \<Rightarrow> nat \<Rightarrow> cell \<Rightarrow> cell list" where
  "writeCell row i v =
     (if i < length row then row[i := v] else row @ replicate (i - length row) None @ [v])"

text \<open>
  The loop over the occupied offsets. \<open>BOARD_WIDTH\<close> and \<open>BOARD_HEIGHT\<close> are constants of
  lib/gameLogic, which is not among the sources; they are the parameters \<open>W\<close> and \<open>H\<close>.
  \<^verbatim>\<open>displayBoard[boardY][boardX] = color\<close> throws a TypeError when \<open>displayBoard\<close> has no
  row \<open>boardY\<close>.
\<close>

fun paint ::
  "int \<Rightarrow> int \<Rightarrow> Tetromino \<Rightarrow> ref list \<Rightarrow> (int \<times> int) list \<Rightarrow> store \<Rightarrow> store \<times> js_error option"
where
  "paint W H p displayBoard [] h = (h, None)"
| "paint W H p displayBoard ((cx, cy) # cs) h =
     (let boardY = pos_y (position p) + cy;
          boardX = pos_x (position p) + cx
      in if boardY \<ge> 0 \<and> boardY < H \<and> boardX \<ge> 0 \<and> boardX < W
         then (if nat boardY < length displayBoard
               then paint W H p displayBoard cs
                      (h[displayBoard ! nat boardY :=
                           writeCell (h ! (displayBoard ! nat boardY)) (nat boardX)
                             (Some (color p))])
               else (h, Some TypeError))
         else paint W H p displayBoard cs h)"

definition Board_display ::
  "int \<Rightarrow> int \<Rightarrow> store \<Rightarrow> ref list \<Rightarrow> Tetromino option \<Rightarrow> store \<times> (js_error + ref list)"
where
  "Board_display W H h board_refs cp =
     (let (displayBoard, h1) = copyRows h board_refs in
      case cp of
        None \<Rightarrow> (h1, Inr displayBoard)
      | Some p \<Rightarrow>
          (case paint W H p displayBoard (shapeCells 0 (shape p)) h1 of
             (h2, None) \<Rightarrow> (h2, Inr displayBoard)
           | (h2, Some e) \<Rightarrow> (h2, Inl e)))"

text \<open>The board a list of references denotes in a store.\<close>

definition deref :: "store \<Rightarrow> ref list \<Rightarrow> Board" where
  "deref h rs = map (\<lambda>r. h ! r) rs"

text \<open>An offset of the mask whose cell lies within the display.\<close>

definition inDisplay :: "int \<Rightarrow> int \<Rightarrow> Tetromino \<Rightarrow> int \<times> int \<Rightarrow> bool" where
  "inDisplay W H p c =
     (0 \<le> pos_y (position p) + snd c \<and> pos_y (position p) + snd c < H
      \<and> 0 \<le> pos_x (position p) + fst c \<and> pos_x (position p) + fst c < W)"

section \<open>Occupied cells of a piece\<close>

text \<open>
  The cells a piece occupies at its origin, read off the mask by index: row \<open>i\<close>, column
  \<open>j\<close> of the mask is occupied when its entry is nonzero.
\<close>

definition occupiedCells :: "Tetromino \<Rightarrow> (int \<times> int) set" where
  "occupiedCells p =
     {(pos_x (position p) + int j, pos_y (position p) + int i) | i j.
        i < length (shape p) \<and> j < length (shape p ! i) \<and> shape p ! i ! j \<noteq> 0}"

text \<open>
  What the display shows at a cell: the colour of the active piece where the piece occupies
  the cell and the cell lies within \<open>W\<close> by \<open>H\<close>, and the cell of the board elsewhere.
\<close>

definition displayCell :: "int \<Rightarrow> int \<Rightarrow> Board \<Rightarrow> Tetromino option \<Rightarrow> int \<Rightarrow> int \<Rightarrow> cell" where
  "displayCell W H b cp cx cy =
     (case cp of
        None \<Rightarrow> cellAt b cx cy
      | Some p \<Rightarrow>
          if (cx, cy) \<in> occupiedCells p \<and> 0 \<le> cy \<and> cy < H \<and> 0 \<le> cx \<and> cx < W
          then Some (color p) else cellAt b cx cy)"

section \<open>Concrete pieces and states\<close>

text \<open>
  An instance of the imported functions, for running the component on concrete states:
  rewards 100, 300, 500, 800 scaled by level + 1, ten lines per level, and rotation of the
  mask by a quarter turn.
\<close>

definition rotateMask :: "int list list \<Rightarrow> int list list" where
  "rotateMask m =
     (case m of [] \<Rightarrow> []
      | r # _ \<Rightarrow> map (\<lambda>j. rev (map (\<lambda>row. row ! j) m)) [0..<length r])"

definition exampleImports :: Imports where
  "exampleImports =
     \<lparr>calculateScore = (\<lambda>n l.
         (if n = 1 then 100 else if n = 2 then 300 else if n = 3 then 500
          else if n = 4 then 800 else 0) * (l + 1)),
      calculateLevel = (\<lambda>n. n div 10),
      rotateTetromino = (\<lambda>p. p\<lparr>shape := rotateMask (shape p)\<rparr>)\<rparr>"

definition pieceO :: "int \<Rightarrow> int \<Rightarrow> Tetromino" where
  "pieceO px py =
     \<lparr>ttype = Tet_O, shape = [[1, 1], [1, 1]], position = \<lparr>pos_x = px, pos_y = py\<rparr>,
      color = ''yellow''\<rparr>"

definition pieceT :: "int \<Rightarrow> int \<Rightarrow> Tetromino" where
  "pieceT px py =
     \<lparr>ttype = Tet_T, shape = [[0, 1, 0], [1, 1, 1]], position = \<lparr>pos_x = px, pos_y = py\<rparr>,
      color = ''purple''\<rparr>"

definition pieceI_upright :: "int \<Rightarrow> int \<Rightarrow> Tetromino" where
  "pieceI_upright px py =
     \<lparr>ttype = Tet_I, shape = [[1], [1], [1], [1]], position = \<lparr>pos_x = px, pos_y = py\<rparr>,
      color = ''cyan''\<rparr>"

text \<open>Rows of a grid ten cells wide: empty, full, and full but for some columns.\<close>

definition rowEmpty :: "cell list" where
  "rowEmpty = replicate 10 None"

definition rowGap :: "nat list \<Rightarrow> cell list" where
  "rowGap gaps = map (\<lambda>j. if j \<in> set gaps then None else Some ''grey'') [0..<10]"

definition rowOnly :: "string \<Rightarrow> nat list \<Rightarrow> cell list" where
  "rowOnly c cols = map (\<lambda>j. if j \<in> set cols then Some c else None) [0..<10]"

text \<open>A running game at level 0 with nine lines cleared so far.\<close>

definition playing :: "Board \<Rightarrow> Tetromino \<Rightarrow> Tetromino \<Rightarrow> GameState" where
  "playing b cur nxt =
     \<lparr>board = b, currentPiece = Some cur, nextPiece = Some nxt,
      score = 900, level = 0, lines = 9, gameOver = False, paused = False\<rparr>"

text \<open>An empty grid of 10 by 20 with an O piece at the top.\<close>

definition gsFresh :: GameState where
  "gsFresh = playing (createEmptyBoard 10 20) (pieceO 4 0) (pieceT 3 0)"

text \<open>An upright I piece against the right wall of an empty grid.\<close>

definition gsWall :: GameState where
  "gsWall = playing (createEmptyBoard 10 20) (pieceI_upright 9 5) (pieceT 3 0)"

text \<open>
  The bottom row lacks its last two cells; an O piece rests on the floor, in that gap.
\<close>

definition gsAboutToClear :: GameState where
  "gsAboutToClear =
     playing (replicate 19 rowEmpty @ [rowGap [8, 9]]) (pieceO 8 18) (pieceT 3 0)"

text \<open>
  Columns 4 and 5 are filled from row 2 down; an O piece has just spawned above them and
  a T piece is queued.
\<close>

definition gsStackedHigh :: GameState where
  "gsStackedHigh =
     playing (replicate 2 rowEmpty @ replicate 18 (rowOnly ''grey'' [4, 5])) (pieceO 4 0) (pieceT 3 0)"

text \<open>
  Row 1 lacks only columns 4 and 5, the rows below lack only column 0; an O piece has just
  spawned in rows 0 and 1 and a T piece is queued.
\<close>

definition gsLastLine :: GameState where
  "gsLastLine =
     playing ([rowEmpty, rowGap [4, 5]] @ replicate 18 (rowGap [0])) (pieceO 4 0) (pieceT 3 0)"

text \<open>
  Two cells hang at row 3, columns 4 and 5, with nothing under them; an O piece is above.
\<close>

definition gsOverhang :: GameState where
  "gsOverhang =
     playing (replicate 3 rowEmpty @ [rowOnly ''grey'' [4, 5]] @ replicate 16 rowEmpty)
       (pieceO 4 0) (pieceT 3 0)"

text \<open>A grid of four rows, the second and the last of them full.\<close>

definition gridTwoFull :: Board where
  "gridTwoFull = [rowOnly ''grey'' [2], rowGap [], rowGap [3], rowGap []]"

text \<open>
  A store that holds three rows of four cells, and the board made of them: a grid four wide
  and three tall, with the corners of its bottom row filled.
\<close>

definition storeSmall :: store where
  "storeSmall =
     [[None, None, None, None], [None, None, None, None],
      [Some ''grey'', None, None, Some ''grey'']]"

definition boardRefsSmall :: "ref list" where
  "boardRefsSmall = [0, 1, 2]"

section \<open>Helper facts\<close>

lemma isValidMove_shifted:
  "isValidMove b (shifted p dx dy) 0 0 = isValidMove b p dx dy"
  by (simp add: isValidMove_def shifted_def)

lemma allFree_iff:
  "allFree b ox oy cs = (\<forall>(cx, cy) \<in> set cs. cellFree b (ox + cx) (oy + cy))"
  by (induction cs) (auto split: if_splits)

lemma dropLoop_stop:
  "\<not> isValidMove b p 0 (d + 1) \<Longrightarrow> dropLoop b p d = Some d"
  by (subst dropLoop.simps) simp

lemma dropLoop_step:
  "isValidMove b p 0 (d + 1) \<Longrightarrow> dropLoop b p d = dropLoop b p (d + 1)"
  by (subst dropLoop.simps) simp

lemma valid_below_floor:
  assumes "(cx, cy) \<in> set (shapeCells 0 (shape p))" and "isValidMove b p 0 d"
  shows "pos_y (position p) + d + cy < boardHeight b"
  using assms by (auto simp: isValidMove_def allFree_iff cellFree_def)

lemma dropLoop_bounded:
  assumes cell: "(cx, cy) \<in> set (shapeCells 0 (shape p))"
  shows "nat (boardHeight b - pos_y (position p) - cy - d0) = n \<Longrightarrow>
         \<exists>d. dropLoop b p d0 = Some d \<and> d0 \<le> d
           \<and> (\<forall>j. d0 < j \<and> j \<le> d \<longrightarrow> isValidMove b p 0 j)
           \<and> \<not> isValidMove b p 0 (d + 1)"
proof (induction n arbitrary: d0 rule: less_induct)
  case (less n)
  show ?case
  proof (cases "isValidMove b p 0 (d0 + 1)")
    case False
    then have "dropLoop b p d0 = Some d0" by (rule dropLoop_stop)
    with False show ?thesis by auto
  next
    case True
    from valid_below_floor [OF cell True]
    have "nat (boardHeight b - pos_y (position p) - cy - (d0 + 1)) < n"
      using less.prems by linarith
    from less.IH [OF this refl]
    obtain d where d: "dropLoop b p (d0 + 1) = Some d" "d0 + 1 \<le> d"
      "\<forall>j. d0 + 1 < j \<and> j \<le> d \<longrightarrow> isValidMove b p 0 j"
      "\<not> isValidMove b p 0 (d + 1)" by blast
    have "\<forall>j. d0 < j \<and> j \<le> d \<longrightarrow> isValidMove b p 0 j"
    proof (intro allI impI)
      fix j assume "d0 < j \<and> j \<le> d"
      then have "j = d0 + 1 \<or> (d0 + 1 < j \<and> j \<le> d)" by linarith
      then show "isValidMove b p 0 j" using True d(3) by auto
    qed
    moreover have "dropLoop b p d0 = Some d"
      using dropLoop_step [OF True] d(1) by simp
    ultimately show ?thesis using d(2,4) by auto
  qed
qed

lemma dropLoop_total:
  assumes "shapeCells 0 (shape p) \<noteq> []"
  shows "\<exists>d. dropLoop b p d0 = Some d \<and> d0 \<le> d
           \<and> (\<forall>j. d0 < j \<and> j \<le> d \<longrightarrow> isValidMove b p 0 j)
           \<and> \<not> isValidMove b p 0 (d + 1)"
proof -
  from assms obtain cx cy where "(cx, cy) \<in> set (shapeCells 0 (shape p))"
    by (cases "shapeCells 0 (shape p)") auto
  from dropLoop_bounded [OF this refl] show ?thesis .
qed

text \<open>
  A mask without an occupied cell is a valid placement anywhere, and the loop of hardDrop
  does not return for it.
\<close>

lemma dropLoop_no_result:
  assumes "dropLoop b p d = Some y"
  shows "shapeCells 0 (shape p) \<noteq> []"
proof (rule dropLoop.raw_induct
    [where P = "\<lambda>b' p' d' y'. shapeCells 0 (shape p') \<noteq> []", OF _ assms])
  fix f :: "Board \<Rightarrow> Tetromino \<Rightarrow> int \<Rightarrow> int option" and b' p' d' y'
  assume ih: "\<And>b'' p'' d'' y''. f b'' p'' d'' = Some y'' \<Longrightarrow> shapeCells 0 (shape p'') \<noteq> []"
    and unf: "(if isValidMove b' p' 0 (d' + 1) then f b' p' (d' + 1) else Some d') = Some y'"
  show "shapeCells 0 (shape p') \<noteq> []"
  proof
    assume e: "shapeCells 0 (shape p') = []"
    then have "isValidMove b' p' 0 (d' + 1)" by (simp add: isValidMove_def)
    with unf have "f b' p' (d' + 1) = Some y'" by simp
    from ih [OF this] e show False by simp
  qed
qed

lemma dropLoop_empty_mask:
  "shapeCells 0 (shape p) = [] \<Longrightarrow> dropLoop b p d = None"
  using dropLoop_no_result [of b p d] by (cases "dropLoop b p d") auto

lemma set_rowCells:
  "set (rowCells yy xx r) = {(xx + int j, yy) | j. j < length r \<and> r ! j \<noteq> 0}"
proof (induction r arbitrary: xx)
  case Nil
  then show ?case by simp
next
  case (Cons v vs)
  have "{(xx + int j, yy) | j. j < length (v # vs) \<and> (v # vs) ! j \<noteq> 0}
      = (if v \<noteq> 0 then {(xx, yy)} else {})
        \<union> {(xx + 1 + int j, yy) | j. j < length vs \<and> vs ! j \<noteq> 0}"
    (is "?L = ?R")
  proof (intro set_eqI iffI)
    fix c assume "c \<in> ?L"
    then obtain j where j: "c = (xx + int j, yy)" "j < length (v # vs)" "(v # vs) ! j \<noteq> 0"
      by blast
    show "c \<in> ?R"
    proof (cases j)
      case 0
      with j show ?thesis by simp
    next
      case (Suc k)
      with j have "c = (xx + 1 + int k, yy)" "k < length vs" "vs ! k \<noteq> 0" by simp_all
      then show ?thesis by blast
    qed
  next
    fix c assume "c \<in> ?R"
    then consider "v \<noteq> 0" "c = (xx, yy)"
      | k where "c = (xx + 1 + int k, yy)" "k < length vs" "vs ! k \<noteq> 0"
      by (auto split: if_splits)
    then show "c \<in> ?L"
    proof cases
      case 1
      then have "c = (xx + int 0, yy) \<and> 0 < length (v # vs) \<and> (v # vs) ! 0 \<noteq> 0" by simp
      then show ?thesis by blast
    next
      case 2
      then have "c = (xx + int (Suc k), yy) \<and> Suc k < length (v # vs) \<and> (v # vs) ! Suc k \<noteq> 0"
        by simp
      then show ?thesis by blast
    qed
  qed
  then show ?case using Cons.IH [of "xx + 1"] by simp
qed

lemma set_shapeCells:
  "set (shapeCells yy sh) =
     {(int j, yy + int i) | i j. i < length sh \<and> j < length (sh ! i) \<and> sh ! i ! j \<noteq> 0}"
proof (induction sh arbitrary: yy)
  case Nil
  then show ?case by simp
next
  case (Cons r rs)
  have "{(int j, yy + int i) | i j. i < length (r # rs) \<and> j < length ((r # rs) ! i)
            \<and> (r # rs) ! i ! j \<noteq> 0}
      = {(int j, yy) | j. j < length r \<and> r ! j \<noteq> 0}
        \<union> {(int j, yy + 1 + int i) | i j. i < length rs \<and> j < length (rs ! i) \<and> rs ! i ! j \<noteq> 0}"
    (is "?L = ?A \<union> ?B")
  proof (intro set_eqI iffI)
    fix c assume "c \<in> ?L"
    then obtain i j where ij: "c = (int j, yy + int i)" "i < length (r # rs)"
      "j < length ((r # rs) ! i)" "(r # rs) ! i ! j \<noteq> 0" by blast
    show "c \<in> ?A \<union> ?B"
    proof (cases i)
      case 0
      with ij have "c = (int j, yy)" "j < length r" "r ! j \<noteq> 0" by simp_all
      then show ?thesis by blast
    next
      case (Suc k)
      with ij have "c = (int j, yy + 1 + int k)" "k < length rs" "j < length (rs ! k)"
        "rs ! k ! j \<noteq> 0" by simp_all
      then show ?thesis by blast
    qed
  next
    fix c assume "c \<in> ?A \<union> ?B"
    then consider j where "c = (int j, yy)" "j < length r" "r ! j \<noteq> 0"
      | i j where "c = (int j, yy + 1 + int i)" "i < length rs" "j < length (rs ! i)"
          "rs ! i ! j \<noteq> 0"
      by blast
    then show "c \<in> ?L"
    proof cases
      case 1
      then have "c = (int j, yy + int 0) \<and> 0 < length (r # rs) \<and> j < length ((r # rs) ! 0)
          \<and> (r # rs) ! 0 ! j \<noteq> 0" by simp
      then show ?thesis by blast
    next
      case 2
      then have "c = (int j, yy + int (Suc i)) \<and> Suc i < length (r # rs)
          \<and> j < length ((r # rs) ! Suc i) \<and> (r # rs) ! Suc i ! j \<noteq> 0" by simp
      then show ?thesis by blast
    qed
  qed
  then show ?case using Cons.IH [of "yy + 1"] by (simp add: set_rowCells)
qed

lemma occupiedCells_shapeCells:
  "occupiedCells p =
     (\<lambda>(cx, cy). (pos_x (position p) + cx, pos_y (position p) + cy)) ` set (shapeCells 0 (shape p))"
  unfolding occupiedCells_def set_shapeCells by (auto simp: image_iff)

lemma length_filter_full:
  "length b - length (filter (\<lambda>r. \<not> isFullRow r) b) = length (filter isFullRow b)"
  using sum_length_filter_compl [of isFullRow b] by simp

lemma copyRows_eq:
  "\<forall>r \<in> set rs. r < length h \<Longrightarrow>
     copyRows h rs = ([length h ..< length h + length rs], h @ map (\<lambda>r. h ! r) rs)"
proof (induction rs arbitrary: h)
  case Nil
  then show ?case by simp
next
  case (Cons r rs)
  let ?h1 = "h @ [h ! r]"
  have "\<forall>q \<in> set rs. q < length ?h1" using Cons.prems by auto
  from Cons.IH [OF this]
  have ih: "copyRows ?h1 rs =
      ([Suc (length h) ..< Suc (length h) + length rs], ?h1 @ map (\<lambda>q. ?h1 ! q) rs)"
    by simp
  have same: "map (\<lambda>q. ?h1 ! q) rs = map (\<lambda>q. h ! q) rs"
    using Cons.prems by (auto simp: nth_append)
  show ?case
    by (simp add: alloc_def ih same upt_conv_Cons del: upt_Suc)
qed

lemma readCell_writeCell:
  "readCell (writeCell row i v) j = (if j = i then v else readCell row j)"
  by (auto simp: readCell_def writeCell_def nth_append nth_list_update)

lemma paint_frame:
  "\<forall>a \<in> set d. n \<le> a \<Longrightarrow> take n (fst (paint W H p d cs h)) = take n h"
  by (induction cs arbitrary: h) (auto simp: Let_def)

lemma paint_ok_iff:
  "snd (paint W H p d cs h) = None \<longleftrightarrow>
     (\<forall>c \<in> set cs. inDisplay W H p c \<longrightarrow> nat (pos_y (position p) + snd c) < length d)"
proof (induction cs arbitrary: h)
  case Nil
  then show ?case by simp
next
  case (Cons c cs)
  obtain cx cy where c: "c = (cx, cy)" by (cases c)
  show ?case
    unfolding c by (simp add: Let_def inDisplay_def Cons.IH)
qed

lemma paint_cell:
  assumes "distinct d" and "\<forall>a \<in> set d. a < length h"
    and "snd (paint W H p d cs h) = None" and "i < length d"
  shows "readCell (fst (paint W H p d cs h) ! (d ! i)) j =
     (if \<exists>c \<in> set cs. inDisplay W H p c \<and> pos_y (position p) + snd c = int i
                       \<and> pos_x (position p) + fst c = int j
      then Some (color p) else readCell (h ! (d ! i)) j)"
  using assms
proof (induction cs arbitrary: h)
  case Nil
  then show ?case by simp
next
  case (Cons c cs)
  obtain cx cy where c: "c = (cx, cy)" by (cases c)
  show ?case
  proof (cases "inDisplay W H p c")
    case False
    then have step: "paint W H p d (c # cs) h = paint W H p d cs h"
      using c by (auto simp: inDisplay_def Let_def)
    have ok: "snd (paint W H p d cs h) = None" using Cons.prems(3) step by simp
    note ih = Cons.IH [OF Cons.prems(1,2) ok Cons.prems(4)]
    show ?thesis unfolding step ih using False by simp
  next
    case True
    let ?Y = "nat (pos_y (position p) + cy)" and ?X = "nat (pos_x (position p) + cx)"
    from True Cons.prems(3) c have Y: "?Y < length d"
      by (auto simp: inDisplay_def Let_def split: if_splits)
    let ?h' = "h[d ! ?Y := writeCell (h ! (d ! ?Y)) ?X (Some (color p))]"
    from True c Y have step: "paint W H p d (c # cs) h = paint W H p d cs ?h'"
      by (simp add: inDisplay_def Let_def)
    have pre: "\<forall>a \<in> set d. a < length ?h'" using Cons.prems(2) by simp
    have ok: "snd (paint W H p d cs ?h') = None" using Cons.prems(3) step by simp
    note ih = Cons.IH [OF Cons.prems(1) pre ok Cons.prems(4)]
    have dY: "d ! ?Y < length h" using Cons.prems(2) Y by simp
    have nn: "0 \<le> pos_y (position p) + cy" "0 \<le> pos_x (position p) + cx"
      using True c by (simp_all add: inDisplay_def)
    have here: "readCell (?h' ! (d ! i)) j =
        (if pos_y (position p) + snd c = int i \<and> pos_x (position p) + fst c = int j
         then Some (color p) else readCell (h ! (d ! i)) j)"
    proof (cases "i = ?Y")
      case True
      have "(pos_x (position p) + cx = int j) = (j = ?X)" using nn by linarith
      moreover have "pos_y (position p) + cy = int i" using True nn by simp
      ultimately show ?thesis using dY True c by (simp add: readCell_writeCell)
    next
      case False
      then have "d ! i \<noteq> d ! ?Y"
        using Cons.prems(1,4) Y by (simp add: nth_eq_iff_index_eq)
      moreover have "pos_y (position p) + cy \<noteq> int i"
        using False by auto
      ultimately show ?thesis using c by simp
    qed
    show ?thesis
      unfolding step ih here using True by auto
  qed
qed

lemma occupied_iff_cell:
  "(cx, cy) \<in> occupiedCells p \<longleftrightarrow>
     (\<exists>c \<in> set (shapeCells 0 (shape p)).
        pos_y (position p) + snd c = cy \<and> pos_x (position p) + fst c = cx)"
  unfolding occupiedCells_shapeCells by (force simp: image_iff)

lemma movePiece_lock:
  assumes "\<not> gameOver gs" and "\<not> paused gs" and "currentPiece gs = Some cur"
    and "dy > 0" and "\<not> isValidMove (board gs) (shifted cur dx dy) 0 0"
  shows "movePiece lib fresh1 fresh2 dx dy gs =
     (let cleared = clearLines (mergePieceToBoard (board gs) cur);
          nextP = (case nextPiece gs of Some q \<Rightarrow> q | None \<Rightarrow> fresh1)
      in if \<not> isValidMove (fst cleared) nextP 0 0
         then gs\<lparr>board := fst cleared, gameOver := True\<rparr>
         else \<lparr>board = fst cleared, currentPiece = Some nextP, nextPiece = Some fresh2,
               score = score gs + calculateScore lib (snd cleared) (level gs),
               level = calculateLevel lib (lines gs + snd cleared),
               lines = lines gs + snd cleared, gameOver = False, paused = False\<rparr>)"
  using assms by (simp add: movePiece_def Let_def split: prod.splits)

section \<open>The grid functions\<close>

text \<open>
  Claim C4. For every grid G and piece P, isValidMove(G, P) with zero offset is true iff
  every cell P occupies at its origin lies within [0,width) x [0,height) and the grid cell
  there is empty. The function is a pure function of the grid and the piece, and it is the
  only test of placement that movePiece, rotate and hardDrop use.
\<close>

theorem isValidMove_iff_occupied:
  "isValidMove G P 0 0 \<longleftrightarrow>
     (\<forall>(cx, cy) \<in> occupiedCells P.
        0 \<le> cx \<and> cx < boardWidth G \<and> 0 \<le> cy \<and> cy < boardHeight G \<and> cellAt G cx cy = None)"
  unfolding occupiedCells_shapeCells
  by (simp add: isValidMove_def allFree_iff cellFree_def split_beta)

theorem isValidMove_iff_occupied_witness:
  "isValidMove (board gsFresh) (pieceO 4 0) 0 0
   \<and> (5, 1) \<in> occupiedCells (pieceO 4 0)
   \<and> 5 < boardWidth (board gsFresh)
   \<and> 1 < boardHeight (board gsFresh) \<and> cellAt (board gsFresh) 5 1 = None
   \<and> (4, 3) \<in> occupiedCells (pieceO 4 2)
   \<and> cellAt (board gsOverhang) 4 3 \<noteq> None
   \<and> \<not> isValidMove (board gsOverhang) (pieceO 4 2) 0 0"
proof -
  have v: "isValidMove (board gsFresh) (pieceO 4 0) 0 0" by code_simp
  have m: "(5, 1) \<in> occupiedCells (pieceO 4 0)"
    by (simp add: occupiedCells_shapeCells pieceO_def)
  have "\<forall>(cx, cy) \<in> occupiedCells (pieceO 4 0).
        0 \<le> cx \<and> cx < boardWidth (board gsFresh) \<and> 0 \<le> cy \<and> cy < boardHeight (board gsFresh)
        \<and> cellAt (board gsFresh) cx cy = None"
    using isValidMove_iff_occupied [of "board gsFresh" "pieceO 4 0"] v by (rule iffD1)
  from bspec [OF this m]
  have a: "5 < boardWidth (board gsFresh) \<and> 1 < boardHeight (board gsFresh)
     \<and> cellAt (board gsFresh) 5 1 = None"
    by simp
  have m2: "(4, 3) \<in> occupiedCells (pieceO 4 2)"
    by (simp add: occupiedCells_shapeCells pieceO_def)
  have c: "cellAt (board gsOverhang) 4 3 \<noteq> None" by code_simp
  have n: "\<not> isValidMove (board gsOverhang) (pieceO 4 2) 0 0"
  proof
    assume "isValidMove (board gsOverhang) (pieceO 4 2) 0 0"
    with isValidMove_iff_occupied [of "board gsOverhang" "pieceO 4 2"]
    have "\<forall>(cx, cy) \<in> occupiedCells (pieceO 4 2).
        0 \<le> cx \<and> cx < boardWidth (board gsOverhang) \<and> 0 \<le> cy
        \<and> cy < boardHeight (board gsOverhang) \<and> cellAt (board gsOverhang) cx cy = None"
      by (rule iffD1)
    from bspec [OF this m2] have "cellAt (board gsOverhang) 4 3 = None" by simp
    with c show False by simp
  qed
  show ?thesis
    by (intro conjI) (rule v m m2 c n conjunct1 [OF a] conjunct1 [OF conjunct2 [OF a]]
       conjunct2 [OF conjunct2 [OF a]])+
qed

text \<open>
  Claim C3. For a grid with exactly k full rows, clearLines returns linesCleared = k and a
  grid of the same height, whose rows from k on are the rows that were not full, in their
  order, and whose first k rows are empty rows of the grid's width; k is at most the height.
  The full rows are all removed in the one call.
\<close>

theorem clearLines_full_rows:
  assumes "length (filter isFullRow b) = k"
  shows "k \<le> length b
       \<and> snd (clearLines b) = int k
       \<and> length (fst (clearLines b)) = length b
       \<and> drop k (fst (clearLines b)) = filter (\<lambda>r. \<not> isFullRow r) b
       \<and> take k (fst (clearLines b)) = replicate k (replicate (nat (boardWidth b)) None)"
proof -
  have k: "length b - length (filter (\<lambda>r. \<not> isFullRow r) b) = k"
    using assms by (simp add: length_filter_full)
  have le: "k \<le> length b" using assms length_filter_le [of isFullRow b] by simp
  have len: "length (filter (\<lambda>r. \<not> isFullRow r) b) = length b - k"
    using sum_length_filter_compl [of isFullRow b] assms by simp
  show ?thesis using k le len by (simp add: clearLines_def Let_def)
qed

theorem clearLines_full_rows_witness:
  "length (filter isFullRow gridTwoFull) = 2
   \<and> (2 \<le> length gridTwoFull
      \<and> snd (clearLines gridTwoFull) = int 2
      \<and> length (fst (clearLines gridTwoFull)) = length gridTwoFull
      \<and> drop 2 (fst (clearLines gridTwoFull)) = filter (\<lambda>r. \<not> isFullRow r) gridTwoFull
      \<and> take 2 (fst (clearLines gridTwoFull)) =
          replicate 2 (replicate (nat (boardWidth gridTwoFull)) None))
   \<and> filter (\<lambda>r. \<not> isFullRow r) gridTwoFull = [rowOnly ''grey'' [2], rowGap [3]]"
proof -
  have h: "length (filter isFullRow gridTwoFull) = 2" by code_simp
  have f: "filter (\<lambda>r. \<not> isFullRow r) gridTwoFull = [rowOnly ''grey'' [2], rowGap [3]]"
    by code_simp
  show ?thesis
    by (rule conjI [OF h conjI [OF clearLines_full_rows [OF h] f]])
qed

section \<open>Locking\<close>

text \<open>
  Claim C1, amended. In a state that is neither over nor paused and has an active piece, a
  move with dy > 0 to an invalid placement locks: the grid becomes the grid of clearLines
  applied once to the merge of the active piece, at its current position, into the old grid.
  When the piece to activate (the queued piece, or a new one when none is queued) is a valid
  placement on that grid, the line counter grows by linesCleared, the score by
  calculateScore(linesCleared, old level), the level is calculateLevel of the new line total,
  the piece is activated and a new piece is queued. When it is not, the gameOver flag is
  set and the active and the queued piece stay as they were.
\<close>

theorem lock_event:
  assumes "\<not> gameOver gs" and "\<not> paused gs" and "currentPiece gs = Some cur"
    and "dy > 0" and "\<not> isValidMove (board gs) (shifted cur dx dy) 0 0"
    and "cleared = clearLines (mergePieceToBoard (board gs) cur)"
    and "nextP = (case nextPiece gs of Some q \<Rightarrow> q | None \<Rightarrow> fresh1)"
  shows "board (movePiece lib fresh1 fresh2 dx dy gs) = fst cleared
       \<and> (isValidMove (fst cleared) nextP 0 0 \<longrightarrow>
            movePiece lib fresh1 fresh2 dx dy gs =
              \<lparr>board = fst cleared, currentPiece = Some nextP, nextPiece = Some fresh2,
               score = score gs + calculateScore lib (snd cleared) (level gs),
               level = calculateLevel lib (lines gs + snd cleared),
               lines = lines gs + snd cleared, gameOver = False, paused = False\<rparr>)
       \<and> (\<not> isValidMove (fst cleared) nextP 0 0 \<longrightarrow>
            gameOver (movePiece lib fresh1 fresh2 dx dy gs)
          \<and> currentPiece (movePiece lib fresh1 fresh2 dx dy gs) = currentPiece gs
          \<and> nextPiece (movePiece lib fresh1 fresh2 dx dy gs) = nextPiece gs)"
  using assms(6,7) movePiece_lock [OF assms(1-5), of lib fresh1 fresh2]
  by (simp add: Let_def)

theorem lock_event_witness:
  "\<not> gameOver gsAboutToClear \<and> \<not> paused gsAboutToClear
   \<and> currentPiece gsAboutToClear = Some (pieceO 8 18) \<and> (1::int) > 0
   \<and> \<not> isValidMove (board gsAboutToClear) (shifted (pieceO 8 18) 0 1) 0 0
   \<and> isValidMove (fst (clearLines (mergePieceToBoard (board gsAboutToClear) (pieceO 8 18))))
        (pieceT 3 0) 0 0
   \<and> movePiece exampleImports (pieceO 0 0) (pieceI_upright 4 0) 0 1 gsAboutToClear =
       \<lparr>board = replicate 19 rowEmpty @ [rowOnly ''yellow'' [8, 9]],
        currentPiece = Some (pieceT 3 0), nextPiece = Some (pieceI_upright 4 0),
        score = 1000, level = 1, lines = 10, gameOver = False, paused = False\<rparr>
   \<and> \<not> gameOver gsStackedHigh \<and> \<not> paused gsStackedHigh
   \<and> currentPiece gsStackedHigh = Some (pieceO 4 0)
   \<and> \<not> isValidMove (board gsStackedHigh) (shifted (pieceO 4 0) 0 1) 0 0
   \<and> \<not> isValidMove (fst (clearLines (mergePieceToBoard (board gsStackedHigh) (pieceO 4 0))))
        (pieceT 3 0) 0 0
   \<and> board (movePiece exampleImports (pieceO 0 0) (pieceI_upright 4 0) 0 1 gsStackedHigh) =
       replicate 2 (rowOnly ''yellow'' [4, 5]) @ replicate 18 (rowOnly ''grey'' [4, 5])
   \<and> gameOver (movePiece exampleImports (pieceO 0 0) (pieceI_upright 4 0) 0 1 gsStackedHigh)
   \<and> currentPiece (movePiece exampleImports (pieceO 0 0) (pieceI_upright 4 0) 0 1 gsStackedHigh)
       = Some (pieceO 4 0)"
proof -
  have h1: "\<not> gameOver gsAboutToClear" and h2: "\<not> paused gsAboutToClear"
    and h3: "currentPiece gsAboutToClear = Some (pieceO 8 18)"
    by (simp_all add: gsAboutToClear_def playing_def)
  have h4: "(1::int) > 0" by simp
  have h5: "\<not> isValidMove (board gsAboutToClear) (shifted (pieceO 8 18) 0 1) 0 0"
    by code_simp
  have h6: "pieceT 3 0 = (case nextPiece gsAboutToClear of Some q \<Rightarrow> q | None \<Rightarrow> pieceO 0 0)"
    by (simp add: gsAboutToClear_def playing_def)
  have v: "isValidMove (fst (clearLines (mergePieceToBoard (board gsAboutToClear) (pieceO 8 18))))
        (pieceT 3 0) 0 0"
    by code_simp
  have e: "\<lparr>board = fst (clearLines (mergePieceToBoard (board gsAboutToClear) (pieceO 8 18))),
        currentPiece = Some (pieceT 3 0), nextPiece = Some (pieceI_upright 4 0),
        score = score gsAboutToClear + calculateScore exampleImports
           (snd (clearLines (mergePieceToBoard (board gsAboutToClear) (pieceO 8 18))))
           (level gsAboutToClear),
        level = calculateLevel exampleImports (lines gsAboutToClear
           + snd (clearLines (mergePieceToBoard (board gsAboutToClear) (pieceO 8 18)))),
        lines = lines gsAboutToClear
           + snd (clearLines (mergePieceToBoard (board gsAboutToClear) (pieceO 8 18))),
        gameOver = False, paused = False\<rparr>
      = \<lparr>board = replicate 19 rowEmpty @ [rowOnly ''yellow'' [8, 9]],
        currentPiece = Some (pieceT 3 0), nextPiece = Some (pieceI_upright 4 0),
        score = 1000, level = 1, lines = 10, gameOver = False, paused = False\<rparr>"
    by code_simp
  from lock_event [OF h1 h2 h3 h4 h5 refl h6, of exampleImports "pieceI_upright 4 0"] v
  have m: "movePiece exampleImports (pieceO 0 0) (pieceI_upright 4 0) 0 1 gsAboutToClear =
       \<lparr>board = replicate 19 rowEmpty @ [rowOnly ''yellow'' [8, 9]],
        currentPiece = Some (pieceT 3 0), nextPiece = Some (pieceI_upright 4 0),
        score = 1000, level = 1, lines = 10, gameOver = False, paused = False\<rparr>"
    using e by simp
  have g1: "\<not> gameOver gsStackedHigh" and g2: "\<not> paused gsStackedHigh"
    and g3: "currentPiece gsStackedHigh = Some (pieceO 4 0)"
    by (simp_all add: gsStackedHigh_def playing_def)
  have g5: "\<not> isValidMove (board gsStackedHigh) (shifted (pieceO 4 0) 0 1) 0 0"
    by code_simp
  have g6: "pieceT 3 0 = (case nextPiece gsStackedHigh of Some q \<Rightarrow> q | None \<Rightarrow> pieceO 0 0)"
    by (simp add: gsStackedHigh_def playing_def)
  have n: "\<not> isValidMove (fst (clearLines (mergePieceToBoard (board gsStackedHigh) (pieceO 4 0))))
        (pieceT 3 0) 0 0"
    by code_simp
  have c: "fst (clearLines (mergePieceToBoard (board gsStackedHigh) (pieceO 4 0))) =
       replicate 2 (rowOnly ''yellow'' [4, 5]) @ replicate 18 (rowOnly ''grey'' [4, 5])"
    by code_simp
  from lock_event [OF g1 g2 g3 h4 g5 refl g6, of exampleImports "pieceI_upright 4 0"] n
  have o: "board (movePiece exampleImports (pieceO 0 0) (pieceI_upright 4 0) 0 1 gsStackedHigh) =
       replicate 2 (rowOnly ''yellow'' [4, 5]) @ replicate 18 (rowOnly ''grey'' [4, 5])"
    "gameOver (movePiece exampleImports (pieceO 0 0) (pieceI_upright 4 0) 0 1 gsStackedHigh)"
    "currentPiece (movePiece exampleImports (pieceO 0 0) (pieceI_upright 4 0) 0 1 gsStackedHigh)
       = Some (pieceO 4 0)"
    using c g3 by simp_all
  show ?thesis
    by (intro conjI) (rule h1 h2 h3 h4 h5 v m g1 g2 g3 g5 n o)+
qed

text \<open>
  The claim as written fails where the lock ends the game: the columns under the spawn
  position are filled up to row 2, the O piece locks in rows 0 and 1, no line is cleared,
  the queued T piece has no room, and it is neither activated nor replaced in the queue.
\<close>

theorem lock_event_counterexample:
  "\<not> gameOver gsStackedHigh \<and> \<not> paused gsStackedHigh
   \<and> currentPiece gsStackedHigh = Some (pieceO 4 0)
   \<and> nextPiece gsStackedHigh = Some (pieceT 3 0)
   \<and> \<not> isValidMove (board gsStackedHigh) (shifted (pieceO 4 0) 0 1) 0 0
   \<and> currentPiece (movePiece exampleImports (pieceO 0 0) (pieceI_upright 4 0) 0 1 gsStackedHigh)
       \<noteq> Some (pieceT 3 0)
   \<and> nextPiece (movePiece exampleImports (pieceO 0 0) (pieceI_upright 4 0) 0 1 gsStackedHigh)
       \<noteq> Some (pieceI_upright 4 0)"
  by code_simp

text \<open>
  Claim C2, on the code. The O piece locks in rows 0 and 1 and completes row 1, which
  clearLines removes (linesCleared = 1); what was row 0 comes down to row 1 and leaves no
  room for the queued T piece. The state returned has the cleared grid and the gameOver
  flag, and the score (900), line (9) and level (0) counters of the state before the lock,
  although the clear yields 100 points and the tenth line.
\<close>

theorem final_lock_drops_counters:
  "\<not> gameOver gsLastLine \<and> \<not> paused gsLastLine
   \<and> currentPiece gsLastLine = Some (pieceO 4 0)
   \<and> \<not> isValidMove (board gsLastLine) (shifted (pieceO 4 0) 0 1) 0 0
   \<and> clearLines (mergePieceToBoard (board gsLastLine) (pieceO 4 0)) =
       ([rowEmpty, rowOnly ''yellow'' [4, 5]] @ replicate 18 (rowGap [0]), 1)
   \<and> movePiece exampleImports (pieceO 0 0) (pieceI_upright 4 0) 0 1 gsLastLine =
       gsLastLine\<lparr>board := [rowEmpty, rowOnly ''yellow'' [4, 5]] @ replicate 18 (rowGap [0]),
                  gameOver := True\<rparr>
   \<and> score (movePiece exampleImports (pieceO 0 0) (pieceI_upright 4 0) 0 1 gsLastLine) = 900
   \<and> lines (movePiece exampleImports (pieceO 0 0) (pieceI_upright 4 0) 0 1 gsLastLine) = 9
   \<and> level (movePiece exampleImports (pieceO 0 0) (pieceI_upright 4 0) 0 1 gsLastLine) = 0
   \<and> calculateScore exampleImports 1 (level gsLastLine) = 100
   \<and> calculateLevel exampleImports (lines gsLastLine + 1) = 1"
  by code_simp

text \<open>
  Claim C10. On a lock that clears at least one line and leaves room for the piece to
  activate, the score grows by calculateScore(linesCleared, L) with L the level before the
  lock, and the new level is calculateLevel of the updated line total; nothing is assumed
  about the two levels being equal.
\<close>

theorem lock_scores_at_old_level:
  assumes "\<not> gameOver gs" and "\<not> paused gs" and "currentPiece gs = Some cur"
    and "dy > 0" and "\<not> isValidMove (board gs) (shifted cur dx dy) 0 0"
    and "cleared = clearLines (mergePieceToBoard (board gs) cur)"
    and "snd cleared > 0"
    and "isValidMove (fst cleared)
           (case nextPiece gs of Some q \<Rightarrow> q | None \<Rightarrow> fresh1) 0 0"
  shows "score (movePiece lib fresh1 fresh2 dx dy gs) =
           score gs + calculateScore lib (snd cleared) (level gs)
       \<and> lines (movePiece lib fresh1 fresh2 dx dy gs) = lines gs + snd cleared
       \<and> level (movePiece lib fresh1 fresh2 dx dy gs) =
           calculateLevel lib (lines gs + snd cleared)
       \<and> \<not> gameOver (movePiece lib fresh1 fresh2 dx dy gs)"
  using assms(6,8) movePiece_lock [OF assms(1-5), of lib fresh1 fresh2]
  by (simp add: Let_def)

theorem lock_scores_at_old_level_witness:
  "\<not> gameOver gsAboutToClear \<and> \<not> paused gsAboutToClear
   \<and> currentPiece gsAboutToClear = Some (pieceO 8 18) \<and> (1::int) > 0
   \<and> \<not> isValidMove (board gsAboutToClear) (shifted (pieceO 8 18) 0 1) 0 0
   \<and> snd (clearLines (mergePieceToBoard (board gsAboutToClear) (pieceO 8 18))) = 1
   \<and> isValidMove (fst (clearLines (mergePieceToBoard (board gsAboutToClear) (pieceO 8 18))))
        (case nextPiece gsAboutToClear of Some q \<Rightarrow> q | None \<Rightarrow> pieceO 0 0) 0 0
   \<and> level gsAboutToClear = 0
   \<and> level (movePiece exampleImports (pieceO 0 0) (pieceI_upright 4 0) 0 1 gsAboutToClear) = 1
   \<and> score (movePiece exampleImports (pieceO 0 0) (pieceI_upright 4 0) 0 1 gsAboutToClear) =
       score gsAboutToClear + calculateScore exampleImports 1 0
   \<and> calculateScore exampleImports 1 0 \<noteq> calculateScore exampleImports 1 1"
proof -
  have h1: "\<not> gameOver gsAboutToClear" and h2: "\<not> paused gsAboutToClear"
    and h3: "currentPiece gsAboutToClear = Some (pieceO 8 18)"
    and l0: "level gsAboutToClear = 0" and n9: "lines gsAboutToClear = 9"
    by (simp_all add: gsAboutToClear_def playing_def)
  have h4: "(1::int) > 0" by simp
  have h5: "\<not> isValidMove (board gsAboutToClear) (shifted (pieceO 8 18) 0 1) 0 0"
    by code_simp
  have k: "snd (clearLines (mergePieceToBoard (board gsAboutToClear) (pieceO 8 18))) = 1"
    by code_simp
  then have h7: "snd (clearLines (mergePieceToBoard (board gsAboutToClear) (pieceO 8 18))) > 0"
    by simp
  have h8: "isValidMove (fst (clearLines (mergePieceToBoard (board gsAboutToClear) (pieceO 8 18))))
        (case nextPiece gsAboutToClear of Some q \<Rightarrow> q | None \<Rightarrow> pieceO 0 0) 0 0"
    by code_simp
  have lv: "calculateLevel exampleImports 10 = 1"
    and sc: "calculateScore exampleImports 1 0 \<noteq> calculateScore exampleImports 1 1"
    by (simp_all add: exampleImports_def)
  from lock_scores_at_old_level [OF h1 h2 h3 h4 h5 refl h7 h8, of exampleImports "pieceI_upright 4 0"]
  have "level (movePiece exampleImports (pieceO 0 0) (pieceI_upright 4 0) 0 1 gsAboutToClear) = 1"
    and "score (movePiece exampleImports (pieceO 0 0) (pieceI_upright 4 0) 0 1 gsAboutToClear) =
       score gsAboutToClear + calculateScore exampleImports 1 0"
    by (simp_all add: k l0 n9 lv)
  with h1 h2 h3 h4 h5 k h8 l0 sc show ?thesis by blast
qed

section \<open>Terminal and paused states\<close>

text \<open>
  Claim C5. Once the gameOver flag is set, movePiece, rotate, hardDrop and togglePause each
  return the state they were given, so the pause flag cannot be toggled any more; startGame
  builds a state of its own, whatever the old one was, and that state is not over.
\<close>

theorem game_over_is_terminal:
  assumes "gameOver gs"
  shows "movePiece lib fresh1 fresh2 dx dy gs = gs
       \<and> rotate_cb lib gs = gs
       \<and> hardDrop lib fresh1 fresh2 gs = Some gs
       \<and> togglePause gs = gs
       \<and> \<not> gameOver (startGame emptyBoard newCurrentPiece newNextPiece)"
  using assms by (simp add: movePiece_def rotate_cb_def hardDrop_def togglePause_def startGame_def)

theorem game_over_is_terminal_witness:
  "gameOver (gsFresh\<lparr>gameOver := True\<rparr>)
   \<and> movePiece exampleImports (pieceO 0 0) (pieceI_upright 4 0) 0 1 (gsFresh\<lparr>gameOver := True\<rparr>)
       = gsFresh\<lparr>gameOver := True\<rparr>
   \<and> rotate_cb exampleImports (gsFresh\<lparr>gameOver := True\<rparr>) = gsFresh\<lparr>gameOver := True\<rparr>
   \<and> hardDrop exampleImports (pieceO 0 0) (pieceI_upright 4 0) (gsFresh\<lparr>gameOver := True\<rparr>)
       = Some (gsFresh\<lparr>gameOver := True\<rparr>)
   \<and> togglePause (gsFresh\<lparr>gameOver := True\<rparr>) = gsFresh\<lparr>gameOver := True\<rparr>
   \<and> \<not> gameOver (startGame (createEmptyBoard 10 20) (pieceO 4 0) (pieceT 3 0))"
proof -
  have h1: "gameOver (gsFresh\<lparr>gameOver := True\<rparr>)" by simp
  from game_over_is_terminal [OF h1] h1 show ?thesis by blast
qed

text \<open>
  Claim C6. While the pause flag is set and the game is not over, movePiece, rotate and
  hardDrop each return the state they were given: no drop, move or rotation is accepted.
\<close>

theorem paused_blocks_moves:
  assumes "paused gs" and "\<not> gameOver gs"
  shows "movePiece lib fresh1 fresh2 dx dy gs = gs
       \<and> rotate_cb lib gs = gs
       \<and> hardDrop lib fresh1 fresh2 gs = Some gs"
  using assms by (simp add: movePiece_def rotate_cb_def hardDrop_def)

theorem paused_blocks_moves_witness:
  "paused (gsFresh\<lparr>paused := True\<rparr>) \<and> \<not> gameOver (gsFresh\<lparr>paused := True\<rparr>)
   \<and> movePiece exampleImports (pieceO 0 0) (pieceI_upright 4 0) 0 1 (gsFresh\<lparr>paused := True\<rparr>)
       = gsFresh\<lparr>paused := True\<rparr>
   \<and> rotate_cb exampleImports (gsFresh\<lparr>paused := True\<rparr>) = gsFresh\<lparr>paused := True\<rparr>
   \<and> hardDrop exampleImports (pieceO 0 0) (pieceI_upright 4 0) (gsFresh\<lparr>paused := True\<rparr>)
       = Some (gsFresh\<lparr>paused := True\<rparr>)"
proof -
  have h1: "paused (gsFresh\<lparr>paused := True\<rparr>)" by simp
  have h2: "\<not> gameOver (gsFresh\<lparr>paused := True\<rparr>)"
    by (simp add: gsFresh_def playing_def)
  from paused_blocks_moves [OF h1 h2] h1 h2 show ?thesis by blast
qed

text \<open>
  Claim C7. In a state that is neither over nor paused and has an active piece, a move with
  dy \<le> 0 whose target placement is invalid, and a rotation whose result is an invalid
  placement, return the state unchanged: nothing is locked, and the callbacks have no
  failing branch.
\<close>

theorem invalid_move_is_noop:
  assumes "\<not> gameOver gs" and "\<not> paused gs" and "currentPiece gs = Some cur"
  shows "(dy \<le> 0 \<and> \<not> isValidMove (board gs) (shifted cur dx dy) 0 0 \<longrightarrow>
            movePiece lib fresh1 fresh2 dx dy gs = gs)
       \<and> (\<not> isValidMove (board gs) (rotateTetromino lib cur) 0 0 \<longrightarrow>
            rotate_cb lib gs = gs)"
  using assms by (simp add: movePiece_def rotate_cb_def)

theorem invalid_move_is_noop_witness:
  "\<not> gameOver gsWall \<and> \<not> paused gsWall \<and> currentPiece gsWall = Some (pieceI_upright 9 5)
   \<and> (0::int) \<le> 0
   \<and> \<not> isValidMove (board gsWall) (shifted (pieceI_upright 9 5) 1 0) 0 0
   \<and> movePiece exampleImports (pieceO 0 0) (pieceI_upright 4 0) 1 0 gsWall = gsWall
   \<and> \<not> isValidMove (board gsWall) (rotateTetromino exampleImports (pieceI_upright 9 5)) 0 0
   \<and> rotate_cb exampleImports gsWall = gsWall"
proof -
  have h1: "\<not> gameOver gsWall" and h2: "\<not> paused gsWall"
    and h3: "currentPiece gsWall = Some (pieceI_upright 9 5)"
    by (simp_all add: gsWall_def playing_def)
  have m: "\<not> isValidMove (board gsWall) (shifted (pieceI_upright 9 5) 1 0) 0 0"
    by code_simp
  have r: "\<not> isValidMove (board gsWall) (rotateTetromino exampleImports (pieceI_upright 9 5)) 0 0"
    by code_simp
  from invalid_move_is_noop [OF h1 h2 h3, of 0 1 exampleImports "pieceO 0 0" "pieceI_upright 4 0"] m r
  have "movePiece exampleImports (pieceO 0 0) (pieceI_upright 4 0) 1 0 gsWall = gsWall"
    and "rotate_cb exampleImports gsWall = gsWall"
    by simp_all
  with h1 h2 h3 m r show ?thesis by simp
qed

section \<open>Hard drop\<close>

text \<open>
  Claim C8, amended. In a state that is neither over nor paused, with an active piece that
  occupies at least one cell, hardDrop returns, and it moves the piece down by the distance
  d for which every placement shifted by (0, j), 0 < j \<le> d, is valid and the placement
  shifted by (0, d + 1) is not: the descent ends at the first obstruction. Only the active
  piece changes, so nothing is merged into the grid; when d = 0 the state is returned
  unchanged.
\<close>

theorem hardDrop_first_obstruction:
  assumes "\<not> gameOver gs" and "\<not> paused gs" and "currentPiece gs = Some cur"
    and "shapeCells 0 (shape cur) \<noteq> []"
  shows "\<exists>d. 0 \<le> d
           \<and> (\<forall>j. 0 < j \<and> j \<le> d \<longrightarrow> isValidMove (board gs) cur 0 j)
           \<and> \<not> isValidMove (board gs) cur 0 (d + 1)
           \<and> hardDrop lib fresh1 fresh2 gs =
               Some (if d = 0 then gs else gs\<lparr>currentPiece := Some (shifted cur 0 d)\<rparr>)"
proof -
  from dropLoop_total [OF assms(4), of "board gs" 0]
  obtain d where d: "dropLoop (board gs) cur 0 = Some d" "0 \<le> d"
    "\<forall>j. 0 < j \<and> j \<le> d \<longrightarrow> isValidMove (board gs) cur 0 j"
    "\<not> isValidMove (board gs) cur 0 (d + 1)" by blast
  have "hardDrop lib fresh1 fresh2 gs =
          Some (if d = 0 then gs else gs\<lparr>currentPiece := Some (shifted cur 0 d)\<rparr>)"
  proof (cases "d = 0")
    case True
    then show ?thesis using assms(1-3) d(1) by (simp add: hardDrop_def)
  next
    case False
    with d(2,3) have "0 < d" "isValidMove (board gs) cur 0 d" by auto
    then have "movePiece lib fresh1 fresh2 0 d gs = gs\<lparr>currentPiece := Some (shifted cur 0 d)\<rparr>"
      using assms(1-3) by (simp add: movePiece_def isValidMove_shifted)
    then show ?thesis using assms(1-3) d(1) \<open>0 < d\<close> by (simp add: hardDrop_def)
  qed
  with d show ?thesis by blast
qed

theorem hardDrop_first_obstruction_witness:
  "\<not> gameOver gsFresh \<and> \<not> paused gsFresh \<and> currentPiece gsFresh = Some (pieceO 4 0)
   \<and> shapeCells 0 (shape (pieceO 4 0)) \<noteq> []
   \<and> (\<exists>d. 0 \<le> d
           \<and> (\<forall>j. 0 < j \<and> j \<le> d \<longrightarrow> isValidMove (board gsFresh) (pieceO 4 0) 0 j)
           \<and> \<not> isValidMove (board gsFresh) (pieceO 4 0) 0 (d + 1)
           \<and> hardDrop exampleImports (pieceO 0 0) (pieceI_upright 4 0) gsFresh =
               Some (if d = 0 then gsFresh
                     else gsFresh\<lparr>currentPiece := Some (shifted (pieceO 4 0) 0 d)\<rparr>))"
proof -
  have h1: "\<not> gameOver gsFresh" and h2: "\<not> paused gsFresh"
    and h3: "currentPiece gsFresh = Some (pieceO 4 0)"
    by (simp_all add: gsFresh_def playing_def)
  have h4: "shapeCells 0 (shape (pieceO 4 0)) \<noteq> []"
    by (simp add: pieceO_def)
  from hardDrop_first_obstruction [OF h1 h2 h3 h4] h1 h2 h3 h4 show ?thesis by blast
qed

text \<open>
  The claim as written asks for the greatest d with a valid placement at (0, d). Under an
  overhang there are valid placements below the first obstruction: here the placement
  shifted by (0, 5) is valid, and hardDrop moves the piece by 1.
\<close>

theorem hardDrop_stops_at_overhang:
  "\<not> gameOver gsOverhang \<and> \<not> paused gsOverhang
   \<and> currentPiece gsOverhang = Some (pieceO 4 0)
   \<and> hardDrop exampleImports (pieceO 0 0) (pieceI_upright 4 0) gsOverhang =
       Some (gsOverhang\<lparr>currentPiece := Some (pieceO 4 1)\<rparr>)
   \<and> isValidMove (board gsOverhang) (pieceO 4 0) 0 5
   \<and> \<not> isValidMove (board gsOverhang) (pieceO 4 0) 0 2"
proof -
  have h: "\<not> gameOver gsOverhang" "\<not> paused gsOverhang"
    "currentPiece gsOverhang = Some (pieceO 4 0)"
    by (simp_all add: gsOverhang_def playing_def)
  have v1: "isValidMove (board gsOverhang) (pieceO 4 0) 0 (0 + 1)" by code_simp
  have v2: "\<not> isValidMove (board gsOverhang) (pieceO 4 0) 0 (1 + 1)" by code_simp
  have v5: "isValidMove (board gsOverhang) (pieceO 4 0) 0 5" by code_simp
  have "dropLoop (board gsOverhang) (pieceO 4 0) 0 = Some 1"
    using dropLoop_step [OF v1] dropLoop_stop [OF v2] by simp
  moreover have "movePiece exampleImports (pieceO 0 0) (pieceI_upright 4 0) 0 1 gsOverhang =
      gsOverhang\<lparr>currentPiece := Some (pieceO 4 1)\<rparr>"
    by code_simp
  ultimately have "hardDrop exampleImports (pieceO 0 0) (pieceI_upright 4 0) gsOverhang =
       Some (gsOverhang\<lparr>currentPiece := Some (pieceO 4 1)\<rparr>)"
    using h by (simp add: hardDrop_def)
  with h v2 v5 show ?thesis by simp
qed

section \<open>The display board\<close>

text \<open>
  Claim C9. For every store, every board whose rows are in the store and every active piece
  (or none), the display computation of Board leaves every row array that existed before
  unchanged, so the board it was given reads as before. When it returns a display board,
  the rows of that board are new arrays, as many as the board has rows, and each cell shows
  the colour of the piece where the piece occupies a cell within BOARD_WIDTH by
  BOARD_HEIGHT, and the cell of the board elsewhere. It returns one whenever the board has
  at least BOARD_HEIGHT rows.
\<close>

theorem Board_display_reads_only:
  assumes wf: "\<forall>r \<in> set board_refs. r < length h"
    and run: "Board_display W H h board_refs cp = (h', res)"
  shows "take (length h) h' = h
       \<and> deref h' board_refs = deref h board_refs
       \<and> (H \<le> int (length board_refs) \<longrightarrow> res \<noteq> Inl TypeError)
       \<and> (\<forall>d. res = Inr d \<longrightarrow>
            length d = length board_refs
          \<and> (\<forall>a \<in> set d. length h \<le> a)
          \<and> (\<forall>cx cy. cellAt (deref h' d) cx cy =
                displayCell W H (deref h board_refs) cp cx cy))"
proof -
  let ?n = "length h" and ?m = "length board_refs"
  let ?d = "[?n ..< ?n + ?m]" and ?h1 = "h @ map (\<lambda>r. h ! r) board_refs"
  have cp: "copyRows h board_refs = (?d, ?h1)" by (rule copyRows_eq [OF wf])
  have dist: "distinct ?d" and fresh: "\<forall>a \<in> set ?d. ?n \<le> a"
    and alloc: "\<forall>a \<in> set ?d. a < length ?h1" by simp_all
  have copy: "?h1 ! (?d ! i) = h ! (board_refs ! i)" if "i < ?m" for i
    using that by (simp add: nth_append)
  have frame: "take ?n h' = h"
  proof (cases cp)
    case None
    with run cp show ?thesis by (auto simp: Board_display_def)
  next
    case (Some p)
    with run cp have "h' = fst (paint W H p ?d (shapeCells 0 (shape p)) ?h1)"
      by (auto simp: Board_display_def split: prod.splits option.splits)
    with paint_frame [OF fresh, of W H p "shapeCells 0 (shape p)" ?h1] show ?thesis by simp
  qed
  have same: "deref h' board_refs = deref h board_refs"
  proof -
    have "h' ! r = h ! r" if "r \<in> set board_refs" for r
    proof -
      from that wf have "r < ?n" by simp
      then have "take ?n h' ! r = h' ! r" by simp
      with frame show ?thesis by simp
    qed
    then show ?thesis by (simp add: deref_def)
  qed
  have total: "res \<noteq> Inl TypeError" if tall: "H \<le> int ?m"
  proof (cases cp)
    case None
    with run cp show ?thesis by (auto simp: Board_display_def)
  next
    case (Some p)
    have "snd (paint W H p ?d (shapeCells 0 (shape p)) ?h1) = None"
      unfolding paint_ok_iff using tall by (auto simp: inDisplay_def)
    with run cp Some show ?thesis
      by (auto simp: Board_display_def split: prod.splits option.splits)
  qed
  have cells: "length d = ?m \<and> (\<forall>a \<in> set d. ?n \<le> a)
      \<and> (\<forall>cx cy. cellAt (deref h' d) cx cy = displayCell W H (deref h board_refs) cp cx cy)"
    if res: "res = Inr d" for d
  proof -
    have d: "d = ?d" using run cp res
      by (auto simp: Board_display_def split: prod.splits option.splits)
    have "cellAt (deref h' d) cx cy = displayCell W H (deref h board_refs) cp cx cy" for cx cy
    proof (cases cp)
      case None
      with run cp have "h' = ?h1" by (auto simp: Board_display_def)
      then show ?thesis using None d copy
        by (auto simp: cellAt_def deref_def displayCell_def)
    next
      case (Some p)
      let ?cs = "shapeCells 0 (shape p)"
      from run cp Some res have h': "h' = fst (paint W H p ?d ?cs ?h1)"
        and ok: "snd (paint W H p ?d ?cs ?h1) = None"
        by (auto simp: Board_display_def split: prod.splits option.splits)
      show ?thesis
      proof (cases "0 \<le> cy \<and> nat cy < ?m \<and> 0 \<le> cx")
        case True
        then have i: "nat cy < length ?d" by simp
        have ints: "int (nat cy) = cy" "int (nat cx) = cx" using True by simp_all
        have m: "nat cy < ?m" using True by simp
        note pc = paint_cell [OF dist alloc ok i, of "nat cx"]
        have "readCell (h' ! (?d ! nat cy)) (nat cx) =
            (if \<exists>c \<in> set ?cs. inDisplay W H p c \<and> pos_y (position p) + snd c = cy
                  \<and> pos_x (position p) + fst c = cx
             then Some (color p) else readCell (h ! (board_refs ! nat cy)) (nat cx))"
          by (simp only: h' pc ints copy [OF m])
        moreover have "(\<exists>c \<in> set ?cs. inDisplay W H p c \<and> pos_y (position p) + snd c = cy
                  \<and> pos_x (position p) + fst c = cx)
            = ((cx, cy) \<in> occupiedCells p \<and> 0 \<le> cy \<and> cy < H \<and> 0 \<le> cx \<and> cx < W)"
          unfolding occupied_iff_cell by (auto simp: inDisplay_def)
        ultimately have "readCell (h' ! (?d ! nat cy)) (nat cx) =
            (if (cx, cy) \<in> occupiedCells p \<and> 0 \<le> cy \<and> cy < H \<and> 0 \<le> cx \<and> cx < W
             then Some (color p) else readCell (h ! (board_refs ! nat cy)) (nat cx))"
          by (simp only:)
        moreover have "cellAt (deref h' d) cx cy = readCell (h' ! (?d ! nat cy)) (nat cx)"
          using True d by (simp add: cellAt_def deref_def del: nth_upt)
        moreover have "cellAt (deref h board_refs) cx cy =
            readCell (h ! (board_refs ! nat cy)) (nat cx)"
          using True by (simp add: cellAt_def deref_def)
        ultimately show ?thesis using Some
          by (simp only: displayCell_def option.case)
      next
        case False
        have "\<not> ((cx, cy) \<in> occupiedCells p \<and> 0 \<le> cy \<and> cy < H \<and> 0 \<le> cx \<and> cx < W)"
        proof
          assume a: "(cx, cy) \<in> occupiedCells p \<and> 0 \<le> cy \<and> cy < H \<and> 0 \<le> cx \<and> cx < W"
          then obtain c where c: "c \<in> set ?cs" "pos_y (position p) + snd c = cy"
            "pos_x (position p) + fst c = cx"
            unfolding occupied_iff_cell by blast
          with a have "inDisplay W H p c" by (simp add: inDisplay_def)
          with ok c(1) have "nat (pos_y (position p) + snd c) < length ?d"
            unfolding paint_ok_iff by blast
          with c(2) a False show False by simp
        qed
        moreover have "cellAt (deref h' d) cx cy = None"
          using False d by (auto simp: cellAt_def deref_def)
        moreover have "cellAt (deref h board_refs) cx cy = None"
          using False by (auto simp: cellAt_def deref_def)
        ultimately show ?thesis using Some
          by (simp only: displayCell_def option.case if_False)
      qed
    qed
    with d fresh show ?thesis by simp
  qed
  from frame same total cells show ?thesis by blast
qed

theorem Board_display_reads_only_witness:
  "list_all (\<lambda>r. r < length storeSmall) boardRefsSmall
   \<and> 3 \<le> int (length boardRefsSmall)
   \<and> snd (Board_display 4 3 storeSmall boardRefsSmall (Some (pieceO 1 0))) = Inr [3, 4, 5]
   \<and> take (length storeSmall)
        (fst (Board_display 4 3 storeSmall boardRefsSmall (Some (pieceO 1 0)))) = storeSmall
   \<and> deref (fst (Board_display 4 3 storeSmall boardRefsSmall (Some (pieceO 1 0))))
        boardRefsSmall = deref storeSmall boardRefsSmall
   \<and> cellAt (deref (fst (Board_display 4 3 storeSmall boardRefsSmall (Some (pieceO 1 0))))
        [3, 4, 5]) 2 1 = Some ''yellow''
   \<and> cellAt (deref storeSmall boardRefsSmall) 2 1 = None"
proof -
  let ?run = "Board_display 4 3 storeSmall boardRefsSmall (Some (pieceO 1 0))"
  have w: "list_all (\<lambda>r. r < length storeSmall) boardRefsSmall" by code_simp
  then have wf: "\<forall>r \<in> set boardRefsSmall. r < length storeSmall"
    by (simp add: list_all_iff)
  have tall: "3 \<le> int (length boardRefsSmall)" by (simp add: boardRefsSmall_def)
  have r: "snd ?run = Inr [3, 4, 5]" by code_simp
  have run: "?run = (fst ?run, snd ?run)" by simp
  note t = Board_display_reads_only [OF wf run]
  have frame: "take (length storeSmall) (fst ?run) = storeSmall"
    by (rule conjunct1 [OF t])
  have same: "deref (fst ?run) boardRefsSmall = deref storeSmall boardRefsSmall"
    by (rule conjunct1 [OF conjunct2 [OF t]])
  have "\<forall>d. snd ?run = Inr d \<longrightarrow>
            length d = length boardRefsSmall
          \<and> (\<forall>a \<in> set d. length storeSmall \<le> a)
          \<and> (\<forall>cx cy. cellAt (deref (fst ?run) d) cx cy =
                displayCell 4 3 (deref storeSmall boardRefsSmall) (Some (pieceO 1 0)) cx cy)"
    by (rule conjunct2 [OF conjunct2 [OF conjunct2 [OF t]]])
  from this [rule_format, OF r]
  have "cellAt (deref (fst ?run) [3, 4, 5]) 2 1 =
      displayCell 4 3 (deref storeSmall boardRefsSmall) (Some (pieceO 1 0)) 2 1"
    by (elim conjE) (erule allE [of _ 2], erule allE [of _ 1])
  moreover have "displayCell 4 3 (deref storeSmall boardRefsSmall) (Some (pieceO 1 0)) 2 1
      = Some ''yellow''"
    by (simp add: displayCell_def occupiedCells_shapeCells pieceO_def)
  ultimately have shown: "cellAt (deref (fst ?run) [3, 4, 5]) 2 1 = Some ''yellow''" by simp
  have kept: "cellAt (deref storeSmall boardRefsSmall) 2 1 = None" by code_simp
  show ?thesis
    by (intro conjI) (rule w tall r frame same shown kept)+
qed

end
